theory Spec2Isabelle
  imports Complex_Main "HOL-Library.AList" "HOL-Library.Log_Nat"
begin

section \<open>The balance and settlement engine of tripsplit-web\<close>

text \<open>
  The engine is the two functions \<^verbatim>\<open>computeBalances\<close> and \<^verbatim>\<open>computeSettlements\<close> of
  \<^verbatim>\<open>src/App.tsx\<close>, with the helper \<^verbatim>\<open>roundToCents\<close>.

  The balance calculator is modelled with the numbers and the objects of JavaScript:
  numbers are IEEE 754 doubles with their rounding, their infinities and \<^verbatim>\<open>NaN\<close>, and
  the object \<^verbatim>\<open>balances\<close> is seen through its prototype chain, as the operator
  \<^verbatim>\<open>in\<close> and the reads and writes of the code see it.

  The settlement planner is modelled in exact arithmetic, with amounts that are rationals.
  The properties proved of it below (the parties and the sign of a settlement, the empty
  result, the number of settlements) rest on comparisons and on the order of the matching,
  not on the value of a rounded sum.
\<close>

subsection \<open>Data model\<close>

text \<open>\<^verbatim>\<open>type Member = { id: string; name: string }\<close>\<close>

record Member =
  member_id :: string
  member_name :: string

datatype SplitMode = Equal | Custom

text \<open>The rows \<^verbatim>\<open>{ member: Member; balance: number }\<close> that \<^verbatim>\<open>computeSettlements\<close> takes.\<close>

record BalanceRow =
  member :: Member
  balance :: rat

text \<open>\<^verbatim>\<open>type Settlement = { from: Member; to: Member; amount: number }\<close>\<close>

record Settlement =
  from_member :: Member
  to_member :: Member
  settle_amount :: rat

text \<open>The elements \<^verbatim>\<open>{ member, amount }\<close> of the arrays \<^verbatim>\<open>creditors\<close> and \<^verbatim>\<open>debtors\<close>.\<close>

record Entry =
  entry_member :: Member
  entry_amount :: rat

subsection \<open>Numbers\<close>

text \<open>
  A JavaScript \<^verbatim>\<open>number\<close> is an IEEE 754 double: a finite value (\<open>Fin\<close>, carrying the
  rational it denotes), one of the two infinities, or \<^verbatim>\<open>NaN\<close>. The sign of a zero is not
  modelled: the engine only adds, subtracts, compares and tests numbers for truthiness, and
  none of these tells \<^verbatim>\<open>-0\<close> from \<^verbatim>\<open>0\<close>.
\<close>

datatype number = Fin rat | PInf | NInf | NaN

text \<open>The binary exponent of a rational other than 0: \<open>2 powi e \<le> \<bar>x\<bar> < 2 powi (e + 1)\<close>.\<close>

definition ilog2 :: "rat \<Rightarrow> int" where
  "ilog2 x =
     (let (p, q) = quotient_of \<bar>x\<bar>; d = bitlen p - bitlen q
      in if 2 powi d \<le> \<bar>x\<bar> then d else d - 1)"

text \<open>Rounding to the nearest integer, a tie to the even one.\<close>

definition roundHalfEven :: "rat \<Rightarrow> int" where
  "roundHalfEven y =
     (let n = \<lfloor>y\<rfloor>; r = y - of_int n
      in if r < 1 / 2 then n else if 1 / 2 < r then n + 1 else if even n then n else n + 1)"

text \<open>
  The result of an arithmetic operation whose exact value is \<open>x\<close>: \<open>x\<close> rounded to the
  nearest double, a tie to the one with the even significand. The doubles around \<open>x\<close> are
  the multiples of \<open>2 powi (e - 52)\<close>, where \<open>e\<close> is the exponent of \<open>x\<close>, and at least
  \<open>-1022\<close> (below it the doubles are subnormal). The operation overflows to an infinity
  when the rounded magnitude reaches \<open>2 ^ 1024\<close>, which is when \<open>e\<close> exceeds 1023, or
  is 1023 and the significand was rounded up to \<open>2 ^ 53\<close>.
\<close>

definition fl :: "rat \<Rightarrow> number" where
  "fl x =
     (if x = 0 then Fin 0
      else
        let e = max (ilog2 x) (- 1022);
            k = roundHalfEven (x / 2 powi (e - 52))
        in if 1023 < e \<or> (e = 1023 \<and> \<bar>k\<bar> = 2 ^ 53)
           then (if 0 < x then PInf else NInf)
           else Fin (of_int k * 2 powi (e - 52)))"

text \<open>\<^verbatim>\<open>-x\<close>\<close>

fun nneg :: "number \<Rightarrow> number" where
  "nneg (Fin x) = Fin (- x)"
| "nneg PInf = NInf"
| "nneg NInf = PInf"
| "nneg NaN = NaN"

text \<open>\<^verbatim>\<open>x + y\<close>\<close>

fun nadd :: "number \<Rightarrow> number \<Rightarrow> number" where
  "nadd NaN y = NaN"
| "nadd x NaN = NaN"
| "nadd (Fin x) (Fin y) = fl (x + y)"
| "nadd PInf NInf = NaN"
| "nadd NInf PInf = NaN"
| "nadd PInf y = PInf"
| "nadd x PInf = PInf"
| "nadd NInf y = NInf"
| "nadd x NInf = NInf"

text \<open>\<^verbatim>\<open>x - y\<close>\<close>

definition nsub :: "number \<Rightarrow> number \<Rightarrow> number" where
  "nsub x y = nadd x (nneg y)"

text \<open>
  \<^verbatim>\<open>x / n\<close> for the length \<open>n\<close> of an array (a whole number, and a double: an array
  has fewer than \<open>2 ^ 32\<close> elements).
\<close>

fun ndivn :: "number \<Rightarrow> nat \<Rightarrow> number" where
  "ndivn NaN n = NaN"
| "ndivn (Fin x) n =
     (if n = 0 then (if 0 < x then PInf else if x < 0 then NInf else NaN)
      else fl (x / of_nat n))"
| "ndivn PInf n = PInf"
| "ndivn NInf n = NInf"

subsection \<open>The balance calculator\<close>

text \<open>
  \<^verbatim>\<open>type Expense\<close>, restricted to the fields the engine reads. \<^verbatim>\<open>splitMode\<close> and
  \<^verbatim>\<open>splitAmounts\<close> are optional in the source. A present \<^verbatim>\<open>splitAmounts\<close> object is the
  list of its entries in the order \<^verbatim>\<open>Object.entries\<close> yields them (the keys of an
  object are pairwise distinct).
\<close>

record Expense =
  amount :: number
  paidBy :: string
  splitBetween :: "string list"
  splitMode :: "SplitMode option"
  splitAmounts :: "(string \<times> number) list option"

text \<open>\<^verbatim>\<open>type Group\<close>, restricted to the fields the engine reads.\<close>

record Group =
  members :: "Member list"
  expenses :: "Expense list"

text \<open>
  The values that a read of \<^verbatim>\<open>balances[k]\<close> can give: a number; a string (what \<^verbatim>\<open>+=\<close>
  makes of a value that is not a number; its text is not modelled, it is never empty and
  never the text of a number); a function (a method inherited from
  \<^verbatim>\<open>Object.prototype\<close>); the object \<^verbatim>\<open>Object.prototype\<close> itself; \<^verbatim>\<open>undefined\<close>.
\<close>

datatype jsval = Num number | Str | Fn | Proto | Undefined

text \<open>
  \<^verbatim>\<open>const balances: Record<string, number> = {}\<close> is an ordinary object. Its own
  properties are kept in insertion order, and an assignment to an existing key keeps its
  place: the association list with \<^const>\<open>AList.update\<close>. Its prototype is
  \<^verbatim>\<open>Object.prototype\<close>, whose properties have the following names.
\<close>

type_synonym balances = "(string \<times> jsval) list"

definition objectPrototypeNames :: "string list" where
  "objectPrototypeNames =
     [''constructor'', ''__defineGetter__'', ''__defineSetter__'', ''hasOwnProperty'',
      ''__lookupGetter__'', ''__lookupSetter__'', ''isPrototypeOf'',
      ''propertyIsEnumerable'', ''toString'', ''valueOf'', ''__proto__'', ''toLocaleString'']"

text \<open>\<^verbatim>\<open>k in balances\<close>: an own property or an inherited one.\<close>

definition hasProperty :: "balances \<Rightarrow> string \<Rightarrow> bool" where
  "hasProperty b k = (map_of b k \<noteq> None \<or> k \<in> set objectPrototypeNames)"

text \<open>
  The read \<^verbatim>\<open>balances[k]\<close>: the own property; otherwise the inherited one, which is the
  accessor \<^verbatim>\<open>__proto__\<close> (it returns the prototype) or a method; otherwise
  \<^verbatim>\<open>undefined\<close>.
\<close>

definition getProperty :: "balances \<Rightarrow> string \<Rightarrow> jsval" where
  "getProperty b k =
     (case map_of b k of
        Some v \<Rightarrow> v
      | None \<Rightarrow>
          if k = ''__proto__'' then Proto
          else if k \<in> set objectPrototypeNames then Fn
          else Undefined)"

text \<open>
  The assignment \<^verbatim>\<open>balances[k] = v\<close> of a number or a string: the inherited setter of
  \<^verbatim>\<open>__proto__\<close> ignores a value that is not an object; any other key becomes or stays an
  own property.
\<close>

definition setProperty :: "balances \<Rightarrow> string \<Rightarrow> jsval \<Rightarrow> balances" where
  "setProperty b k v = (if k = ''__proto__'' then b else AList.update k v b)"

text \<open>
  \<^verbatim>\<open>v + d\<close> for a number \<open>d\<close>: the sum of two numbers; with a function, an object or a
  string on the left, the concatenation of two strings; \<^verbatim>\<open>NaN\<close> for \<^verbatim>\<open>undefined\<close>.
\<close>

fun jsPlus :: "jsval \<Rightarrow> number \<Rightarrow> jsval" where
  "jsPlus (Num x) d = Num (nadd x d)"
| "jsPlus Undefined d = Num NaN"
| "jsPlus v d = Str"

text \<open>
  \<^verbatim>\<open>v - d\<close> for a number \<open>d\<close>: the difference of two numbers; \<^verbatim>\<open>NaN\<close> when the left
  operand is not a number (none of the strings, functions and objects above converts to
  one).
\<close>

fun jsMinus :: "jsval \<Rightarrow> number \<Rightarrow> jsval" where
  "jsMinus (Num x) d = Num (nsub x d)"
| "jsMinus v d = Num NaN"

text \<open>Truthiness: 0, \<^verbatim>\<open>NaN\<close> and \<^verbatim>\<open>undefined\<close> are falsy.\<close>

fun truthy :: "jsval \<Rightarrow> bool" where
  "truthy (Num (Fin x)) = (x \<noteq> 0)"
| "truthy (Num NaN) = False"
| "truthy (Num x) = True"
| "truthy Undefined = False"
| "truthy v = True"

text \<open>
  \<^verbatim>\<open>if (!(k in balances)) { balances[k] = 0; }  balances[k] += d;\<close>
\<close>

definition credit :: "string \<Rightarrow> number \<Rightarrow> balances \<Rightarrow> balances" where
  "credit k d b =
     (let b' = (if \<not> hasProperty b k then setProperty b k (Num (Fin 0)) else b)
      in setProperty b' k (jsPlus (getProperty b' k) d))"

text \<open>
  \<^verbatim>\<open>if (!(k in balances)) { balances[k] = 0; }  balances[k] -= d;\<close>
\<close>

definition debit :: "string \<Rightarrow> number \<Rightarrow> balances \<Rightarrow> balances" where
  "debit k d b =
     (let b' = (if \<not> hasProperty b k then setProperty b k (Num (Fin 0)) else b)
      in setProperty b' k (jsMinus (getProperty b' k) d))"

text \<open>\<^verbatim>\<open>group.members.forEach((member) => { balances[member.id] = 0; })\<close>\<close>

definition initBalances :: "Member list \<Rightarrow> balances" where
  "initBalances ms = fold (\<lambda>m b. setProperty b (member_id m) (Num (Fin 0))) ms []"

text \<open>
  \<^verbatim>\<open>(expense.splitMode === "custom" || !!expense.splitAmounts) && expense.splitAmounts
     && Object.keys(expense.splitAmounts).length > 0\<close>
\<close>

definition hasCustomSplit :: "Expense \<Rightarrow> bool" where
  "hasCustomSplit e =
     ((splitMode e = Some Custom \<or> splitAmounts e \<noteq> None) \<and>
      (case splitAmounts e of None \<Rightarrow> False | Some sa \<Rightarrow> 0 < length sa))"

text \<open>
  \<^verbatim>\<open>splitBetween.length > 0 ? expense.splitBetween : [expense.paidBy]\<close>
  (\<^verbatim>\<open>Array.isArray\<close> holds of every value of the field's type).
\<close>

definition splitMembers :: "Expense \<Rightarrow> string list" where
  "splitMembers e = (if 0 < length (splitBetween e) then splitBetween e else [paidBy e])"

text \<open>\<^verbatim>\<open>splitMembers.length || 1\<close>\<close>

definition splitCount :: "Expense \<Rightarrow> nat" where
  "splitCount e = (if length (splitMembers e) = 0 then 1 else length (splitMembers e))"

text \<open>\<^verbatim>\<open>expense.amount / splitCount\<close>\<close>

definition share :: "Expense \<Rightarrow> number" where
  "share e = ndivn (amount e) (splitCount e)"

text \<open>
  The body of \<^verbatim>\<open>for (const expense of group.expenses)\<close>. The empty string is the
  falsy value of \<^verbatim>\<open>paidBy\<close>: \<^verbatim>\<open>if (!expense.paidBy) continue;\<close> The custom branch
  is guarded by \<^verbatim>\<open>hasCustomSplit && expense.splitAmounts\<close>.
\<close>

definition applyExpense :: "balances \<Rightarrow> Expense \<Rightarrow> balances" where
  "applyExpense b e =
     (if paidBy e = [] then b
      else
        let b1 = credit (paidBy e) (amount e) b in
        case splitAmounts e of
          Some sa \<Rightarrow>
            if hasCustomSplit e
            then fold (\<lambda>(memberId, amt) acc. debit memberId amt acc) sa b1
            else fold (\<lambda>memberId acc. debit memberId (share e) acc) (splitMembers e) b1
        | None \<Rightarrow> fold (\<lambda>memberId acc. debit memberId (share e) acc) (splitMembers e) b1)"

text \<open>The object \<^verbatim>\<open>balances\<close> when the loop over the expenses has ended.\<close>

definition balancesObject :: "Group \<Rightarrow> balances" where
  "balancesObject g = fold (\<lambda>e b. applyExpense b e) (expenses g) (initBalances (members g))"

text \<open>
  The rows \<^verbatim>\<open>{ member, balance }\<close> that \<^verbatim>\<open>computeBalances\<close> returns. The field
  \<^verbatim>\<open>balance\<close> is declared a number; what the code stores in it is the value of
  \<^verbatim>\<open>balances[member.id] || 0\<close>.
\<close>

record ComputedRow =
  rowMember :: Member
  rowBalance :: jsval

text \<open>\<^verbatim>\<open>v || 0\<close>\<close>

definition orZero :: "jsval \<Rightarrow> jsval" where
  "orZero v = (if truthy v then v else Num (Fin 0))"

text \<open>
  \<^verbatim>\<open>group.members.map((member) => ({ member, balance: balances[member.id] || 0 }))\<close>
\<close>

definition computeBalances :: "Group \<Rightarrow> ComputedRow list" where
  "computeBalances g =
     map (\<lambda>m. \<lparr>rowMember = m, rowBalance = orZero (getProperty (balancesObject g) (member_id m))\<rparr>)
       (members g)"

subsection \<open>The settlement planner\<close>

text \<open>
  \<^verbatim>\<open>const roundToCents = (value: number) => Math.round(value * 100) / 100;\<close>
  \<^verbatim>\<open>Math.round\<close> returns the nearest integer, and of two nearest ones the greater:
  \<open>\<lfloor>x + 1/2\<rfloor>\<close>.
\<close>

definition roundToCents :: "rat \<Rightarrow> rat" where
  "roundToCents v = of_int \<lfloor>v * 100 + 1 / 2\<rfloor> / 100"

text \<open>
  \<^verbatim>\<open>balanceRows.filter((row) => row.balance > 0)
     .map((row) => ({ member: row.member, amount: roundToCents(row.balance) }))\<close>
\<close>

definition creditorsOf :: "BalanceRow list \<Rightarrow> Entry list" where
  "creditorsOf balanceRows =
     map (\<lambda>row. \<lparr>entry_member = member row, entry_amount = roundToCents (balance row)\<rparr>)
       (filter (\<lambda>row. balance row > 0) balanceRows)"

text \<open>
  \<^verbatim>\<open>balanceRows.filter((row) => row.balance < 0)
     .map((row) => ({ member: row.member, amount: roundToCents(Math.abs(row.balance)) }))\<close>
\<close>

definition debtorsOf :: "BalanceRow list \<Rightarrow> Entry list" where
  "debtorsOf balanceRows =
     map (\<lambda>row. \<lparr>entry_member = member row, entry_amount = roundToCents \<bar>balance row\<bar>\<rparr>)
       (filter (\<lambda>row. balance row < 0) balanceRows)"

text \<open>
  The variables of the matching loop. The loop assigns to the \<^verbatim>\<open>amount\<close> field of
  the elements of \<^verbatim>\<open>debtors\<close> and \<^verbatim>\<open>creditors\<close> in place, so both arrays are part
  of the state.
\<close>

record LoopState =
  debtors :: "Entry list"
  creditors :: "Entry list"
  settlements :: "Settlement list"
  debtorIndex :: nat
  creditorIndex :: nat

text \<open>\<^verbatim>\<open>debtorIndex < debtors.length && creditorIndex < creditors.length\<close>\<close>

definition loopCond :: "LoopState \<Rightarrow> bool" where
  "loopCond s =
     (debtorIndex s < length (debtors s) \<and> creditorIndex s < length (creditors s))"

text \<open>
  One iteration of the \<^verbatim>\<open>while\<close> loop. It is run only where \<^const>\<open>loopCond\<close> holds, so
  both reads are in range.
\<close>

definition loopBody :: "LoopState \<Rightarrow> LoopState" where
  "loopBody s =
     (let debtor = debtors s ! debtorIndex s;
          creditor = creditors s ! creditorIndex s;
          payment = min (entry_amount debtor) (entry_amount creditor);
          settlements' =
            (if payment > 0
             then settlements s @
               [\<lparr>from_member = entry_member debtor, to_member = entry_member creditor,
                 settle_amount = payment\<rparr>]
             else settlements s);
          debtor' = debtor\<lparr>entry_amount := roundToCents (entry_amount debtor - payment)\<rparr>;
          creditor' = creditor\<lparr>entry_amount := roundToCents (entry_amount creditor - payment)\<rparr>
      in \<lparr>debtors = (debtors s)[debtorIndex s := debtor'],
          creditors = (creditors s)[creditorIndex s := creditor'],
          settlements = settlements',
          debtorIndex =
            (if entry_amount debtor' \<le> 1 / 100 then debtorIndex s + 1 else debtorIndex s),
          creditorIndex =
            (if entry_amount creditor' \<le> 1 / 100 then creditorIndex s + 1
             else creditorIndex s)\<rparr>)"

text \<open>The \<^verbatim>\<open>while\<close> loop.\<close>

function settleLoop :: "LoopState \<Rightarrow> LoopState" where
  "settleLoop s = (if loopCond s then settleLoop (loopBody s) else s)"
  by pat_completeness auto
termination
proof (relation "measure (\<lambda>s. (length (debtors s) - debtorIndex s) +
                               (length (creditors s) - creditorIndex s))")
  show "wf (measure (\<lambda>s. (length (debtors s) - debtorIndex s) +
                          (length (creditors s) - creditorIndex s)))"
    by simp
next
  fix s :: LoopState
  assume c: "loopCond s"
  define x where "x = entry_amount (debtors s ! debtorIndex s)"
  define y where "y = entry_amount (creditors s ! creditorIndex s)"
  have z: "roundToCents 0 \<le> 1 / 100"
    by (simp add: roundToCents_def)
  have "x - min x y = 0 \<or> y - min x y = 0"
    by (simp add: min_def)
  then have adv: "roundToCents (x - min x y) \<le> 1 / 100 \<or> roundToCents (y - min x y) \<le> 1 / 100"
    using z by auto
  from c have lt: "debtorIndex s < length (debtors s)" "creditorIndex s < length (creditors s)"
    by (simp_all add: loopCond_def)
  show "(loopBody s, s) \<in> measure (\<lambda>s. (length (debtors s) - debtorIndex s) +
                                         (length (creditors s) - creditorIndex s))"
    using adv lt unfolding x_def y_def
    by (auto simp add: loopBody_def Let_def)
qed

text \<open>The number of iterations the loop makes from a state (a ghost counter).\<close>

function iterations :: "LoopState \<Rightarrow> nat" where
  "iterations s = (if loopCond s then Suc (iterations (loopBody s)) else 0)"
  by pat_completeness auto
termination
proof (relation "measure (\<lambda>s. (length (debtors s) - debtorIndex s) +
                               (length (creditors s) - creditorIndex s))")
  show "wf (measure (\<lambda>s. (length (debtors s) - debtorIndex s) +
                          (length (creditors s) - creditorIndex s)))"
    by simp
next
  fix s :: LoopState
  assume c: "loopCond s"
  define x where "x = entry_amount (debtors s ! debtorIndex s)"
  define y where "y = entry_amount (creditors s ! creditorIndex s)"
  have z: "roundToCents 0 \<le> 1 / 100"
    by (simp add: roundToCents_def)
  have "x - min x y = 0 \<or> y - min x y = 0"
    by (simp add: min_def)
  then have adv: "roundToCents (x - min x y) \<le> 1 / 100 \<or> roundToCents (y - min x y) \<le> 1 / 100"
    using z by auto
  from c have lt: "debtorIndex s < length (debtors s)" "creditorIndex s < length (creditors s)"
    by (simp_all add: loopCond_def)
  show "(loopBody s, s) \<in> measure (\<lambda>s. (length (debtors s) - debtorIndex s) +
                                         (length (creditors s) - creditorIndex s))"
    using adv lt unfolding x_def y_def
    by (auto simp add: loopBody_def Let_def)
qed

text \<open>The state in which the loop is entered.\<close>

definition initState :: "BalanceRow list \<Rightarrow> LoopState" where
  "initState balanceRows =
     \<lparr>debtors = debtorsOf balanceRows, creditors = creditorsOf balanceRows,
      settlements = [], debtorIndex = 0, creditorIndex = 0\<rparr>"

definition computeSettlements :: "BalanceRow list \<Rightarrow> Settlement list" where
  "computeSettlements balanceRows = settlements (settleLoop (initState balanceRows))"

subsection \<open>Members for the concrete instances\<close>

definition alice :: Member where
  "alice = \<lparr>member_id = ''a'', member_name = ''Alice''\<rparr>"

definition bob :: Member where
  "bob = \<lparr>member_id = ''b'', member_name = ''Bob''\<rparr>"

definition carol :: Member where
  "carol = \<lparr>member_id = ''c'', member_name = ''Carol''\<rparr>"


subsection \<open>Notions used to state the properties of the planner\<close>

text \<open>The \<^verbatim>\<open>payment\<close> of the iteration that starts in a state.\<close>

definition payment :: "LoopState \<Rightarrow> rat" where
  "payment s =
     min (entry_amount (debtors s ! debtorIndex s)) (entry_amount (creditors s ! creditorIndex s))"

text \<open>The number of entries at and after the two cursors.\<close>

definition remaining :: "LoopState \<Rightarrow> nat" where
  "remaining s =
     (length (debtors s) - debtorIndex s) + (length (creditors s) - creditorIndex s)"

text \<open>
  The settlements emitted so far are positive and go from a member of the debtor array to a
  member of the creditor array; the loop never changes the member of an entry.
\<close>

definition wellFormed :: "LoopState \<Rightarrow> LoopState \<Rightarrow> bool" where
  "wellFormed s t =
     (map entry_member (debtors t) = map entry_member (debtors s) \<and>
      map entry_member (creditors t) = map entry_member (creditors s) \<and>
      (\<forall>x \<in> set (settlements t). 0 < settle_amount x \<and>
         from_member x \<in> entry_member ` set (debtors s) \<and>
         to_member x \<in> entry_member ` set (creditors s)))"

text \<open>Every remaining amount is 0 and nothing has been emitted.\<close>

definition allZero :: "LoopState \<Rightarrow> bool" where
  "allZero t =
     ((\<forall>e \<in> set (debtors t). entry_amount e = 0) \<and>
      (\<forall>e \<in> set (creditors t). entry_amount e = 0) \<and> settlements t = [])"

text \<open>Rows for the concrete instances: Alice owes 10, Bob owes 5, Carol is owed 15.\<close>

definition owedRows :: "BalanceRow list" where
  "owedRows = [\<lparr>member = alice, balance = - 10\<rparr>, \<lparr>member = bob, balance = - 5\<rparr>,
               \<lparr>member = carol, balance = 15\<rparr>]"

text \<open>Alice is owed 0.006 and Bob owes 0.006.\<close>

definition halfCentRows :: "BalanceRow list" where
  "halfCentRows =
     [\<lparr>member = alice, balance = 6 / 1000\<rparr>, \<lparr>member = bob, balance = - (6 / 1000)\<rparr>]"

text \<open>Alice is owed 0.004, Bob owes 0.004 and Carol is settled.\<close>

definition tinyRows :: "BalanceRow list" where
  "tinyRows = [\<lparr>member = alice, balance = 4 / 1000\<rparr>, \<lparr>member = bob, balance = - (4 / 1000)\<rparr>,
               \<lparr>member = carol, balance = 0\<rparr>]"

subsection \<open>Notions used to state the properties of the balance calculator\<close>

text \<open>
  An id that is not the name of a property that \<^verbatim>\<open>balances\<close> inherits from
  \<^verbatim>\<open>Object.prototype\<close>.
\<close>

definition plainKey :: "string \<Rightarrow> bool" where
  "plainKey k = (k \<notin> set objectPrototypeNames)"

text \<open>The own property \<open>k\<close> of \<^verbatim>\<open>balances\<close>, and 0 when there is none.\<close>

definition balanceOrZero :: "balances \<Rightarrow> string \<Rightarrow> jsval" where
  "balanceOrZero b k = (case map_of b k of None \<Rightarrow> Num (Fin 0) | Some v \<Rightarrow> v)"

text \<open>
  The value that \<^verbatim>\<open>+=\<close> and \<^verbatim>\<open>-=\<close> work on after
  \<^verbatim>\<open>if (!(k in balances)) { balances[k] = 0; }\<close>.
\<close>

definition current :: "balances \<Rightarrow> string \<Rightarrow> jsval" where
  "current b k = (if hasProperty b k then getProperty b k else Num (Fin 0))"

text \<open>
  The ids an expense refers to: its payer, its \<^verbatim>\<open>splitBetween\<close> list and the keys of its
  \<^verbatim>\<open>splitAmounts\<close> object.
\<close>

definition referencedIds :: "Expense \<Rightarrow> string list" where
  "referencedIds e =
     paidBy e # splitBetween e @ (case splitAmounts e of None \<Rightarrow> [] | Some sa \<Rightarrow> map fst sa)"

text \<open>A group whose only member has the id \<^verbatim>\<open>__proto__\<close>, without expenses.\<close>

definition protoMember :: Member where
  "protoMember = \<lparr>member_id = ''__proto__'', member_name = ''P''\<rparr>"

definition protoGroup :: Group where
  "protoGroup = \<lparr>members = [protoMember], expenses = []\<rparr>"



text \<open>
  The scenario of the specification: Alice pays 90 for a dinner split equally among
  Alice, Bob and Carol; Bob then pays 30 for a taxi with the custom split \<^verbatim>\<open>{c: 30}\<close>.
\<close>

definition dinner :: Expense where
  "dinner =
     \<lparr>amount = Fin 90, paidBy = ''a'', splitBetween = [''a'', ''b'', ''c''],
      splitMode = Some Equal, splitAmounts = None\<rparr>"

definition taxi :: Expense where
  "taxi =
     \<lparr>amount = Fin 30, paidBy = ''b'', splitBetween = [''c''],
      splitMode = Some Custom, splitAmounts = Some [(''c'', Fin 30)]\<rparr>"

text \<open>The object \<^verbatim>\<open>balances\<close> when the dinner has been processed.\<close>

definition afterDinner :: balances where
  "afterDinner = applyExpense (initBalances [alice, bob, carol]) dinner"

section \<open>Properties of the balance calculator\<close>

subsection \<open>Reads after a write\<close>

lemma proto_inherited: "''__proto__'' \<in> set objectPrototypeNames"
  by (simp add: objectPrototypeNames_def)

lemma plainKey_not_proto: "plainKey k \<Longrightarrow> k \<noteq> ''__proto__''"
  using proto_inherited by (auto simp add: plainKey_def)

lemma current_plain: "plainKey k \<Longrightarrow> current b k = balanceOrZero b k"
  by (auto simp add: current_def balanceOrZero_def hasProperty_def getProperty_def plainKey_def
      split: option.splits)

lemma getProperty_setProperty:
  "getProperty (setProperty b k v) k' =
     (if k' = k \<and> k \<noteq> ''__proto__'' then v else getProperty b k')"
  by (simp add: getProperty_def setProperty_def update_conv')

lemma hasProperty_setProperty:
  "hasProperty (setProperty b k v) k' = (hasProperty b k' \<or> (k' = k \<and> k \<noteq> ''__proto__''))"
  by (auto simp add: hasProperty_def setProperty_def update_conv')

lemma hasProperty_proto: "hasProperty b ''__proto__''"
  by (simp add: hasProperty_def proto_inherited)

lemma getProperty_credit:
  "getProperty (credit k d b) k' =
     (if k' = k \<and> k \<noteq> ''__proto__'' then jsPlus (current b k) d else getProperty b k')"
  by (auto simp add: credit_def Let_def getProperty_setProperty current_def hasProperty_proto)

lemma getProperty_debit:
  "getProperty (debit k d b) k' =
     (if k' = k \<and> k \<noteq> ''__proto__'' then jsMinus (current b k) d else getProperty b k')"
  by (auto simp add: debit_def Let_def getProperty_setProperty current_def hasProperty_proto)

lemma hasProperty_credit:
  "hasProperty (credit k d b) k' = (hasProperty b k' \<or> k' = k)"
  by (auto simp add: credit_def Let_def hasProperty_setProperty hasProperty_proto)

lemma hasProperty_debit:
  "hasProperty (debit k d b) k' = (hasProperty b k' \<or> k' = k)"
  by (auto simp add: debit_def Let_def hasProperty_setProperty hasProperty_proto)

lemma current_credit:
  "current (credit k d b) k' =
     (if k' = k \<and> k \<noteq> ''__proto__'' then jsPlus (current b k) d else current b k')"
  by (auto simp add: current_def hasProperty_credit getProperty_credit hasProperty_proto)

lemma current_debit:
  "current (debit k d b) k' =
     (if k' = k \<and> k \<noteq> ''__proto__'' then jsMinus (current b k) d else current b k')"
  by (auto simp add: current_def hasProperty_debit getProperty_debit hasProperty_proto)

lemma keys_setProperty:
  "fst ` set (setProperty b k v) = (if k = ''__proto__'' then fst ` set b else insert k (fst ` set b))"
  by (auto simp add: setProperty_def dom_update)

lemma keys_credit:
  "fst ` set (credit k d b) = (if k = ''__proto__'' then fst ` set b else insert k (fst ` set b))"
  by (auto simp add: credit_def Let_def keys_setProperty)

lemma keys_debit:
  "fst ` set (debit k d b) = (if k = ''__proto__'' then fst ` set b else insert k (fst ` set b))"
  by (auto simp add: debit_def Let_def keys_setProperty)

lemma getProperty_fold_share_other:
  "k \<notin> set ks \<Longrightarrow>
     getProperty (fold (\<lambda>memberId acc. debit memberId x acc) ks b) k = getProperty b k"
  by (induction ks arbitrary: b) (auto simp add: getProperty_debit)

lemma getProperty_fold_custom_other:
  "k \<notin> fst ` set sa \<Longrightarrow>
     getProperty (fold (\<lambda>(memberId, amt) acc. debit memberId amt acc) sa b) k = getProperty b k"
proof (induction sa arbitrary: b)
  case Nil
  show ?case by simp
next
  case (Cons p sa)
  obtain a v where p: "p = (a, v)" by (cases p)
  show ?case
    using Cons.prems by (simp add: p Cons.IH getProperty_debit)
qed

lemma current_fold_share_other:
  "k \<notin> set ks \<Longrightarrow>
     current (fold (\<lambda>memberId acc. debit memberId x acc) ks b) k = current b k"
  by (induction ks arbitrary: b) (auto simp add: current_debit)

lemma current_fold_custom_other:
  "k \<notin> fst ` set sa \<Longrightarrow>
     current (fold (\<lambda>(memberId, amt) acc. debit memberId amt acc) sa b) k = current b k"
proof (induction sa arbitrary: b)
  case Nil
  show ?case by simp
next
  case (Cons p sa)
  obtain a v where p: "p = (a, v)" by (cases p)
  show ?case
    using Cons.prems by (simp add: p Cons.IH current_debit)
qed

lemma getProperty_fold_share:
  assumes "distinct ks" and "k \<noteq> ''__proto__''"
  shows "getProperty (fold (\<lambda>memberId acc. debit memberId x acc) ks b) k =
           (if k \<in> set ks then jsMinus (current b k) x else getProperty b k)"
  using assms(1)
proof (induction ks arbitrary: b)
  case Nil
  show ?case by simp
next
  case (Cons a ks)
  show ?case
  proof (cases "k = a")
    case True
    then have "k \<notin> set ks"
      using Cons.prems by simp
    then show ?thesis
      using True assms(2) by (simp add: getProperty_fold_share_other getProperty_debit)
  next
    case False
    then show ?thesis
      using Cons.prems by (simp add: Cons.IH getProperty_debit current_debit)
  qed
qed

lemma getProperty_fold_custom:
  assumes "distinct (map fst sa)" and "k \<noteq> ''__proto__''"
  shows "getProperty (fold (\<lambda>(memberId, amt) acc. debit memberId amt acc) sa b) k =
           (case map_of sa k of None \<Rightarrow> getProperty b k | Some amt \<Rightarrow> jsMinus (current b k) amt)"
  using assms(1)
proof (induction sa arbitrary: b)
  case Nil
  show ?case by simp
next
  case (Cons p sa)
  obtain a v where p: "p = (a, v)" by (cases p)
  show ?case
  proof (cases "k = a")
    case True
    then have "k \<notin> fst ` set sa"
      using Cons.prems by (simp add: p)
    then show ?thesis
      using True assms(2) by (simp add: p getProperty_fold_custom_other getProperty_debit)
  next
    case False
    then show ?thesis
      using Cons.prems
      by (simp add: p Cons.IH getProperty_debit current_debit split: option.splits)
  qed
qed

lemma applyExpense_unreferenced:
  assumes "k \<notin> set (referencedIds e)"
  shows "getProperty (applyExpense b e) k = getProperty b k"
proof -
  from assms have k: "k \<noteq> paidBy e" "k \<notin> set (splitBetween e)"
    by (simp_all add: referencedIds_def)
  have m: "k \<notin> set (splitMembers e)"
    using k by (simp add: splitMembers_def)
  have s: "splitAmounts e = Some sa \<Longrightarrow> k \<notin> fst ` set sa" for sa
    using assms by (auto simp add: referencedIds_def)
  show ?thesis
    using k m s
    by (simp add: applyExpense_def Let_def getProperty_fold_share_other
        getProperty_fold_custom_other getProperty_credit split: option.splits)
qed

lemma fold_applyExpense_unreferenced:
  "\<forall>e \<in> set es. k \<notin> set (referencedIds e) \<Longrightarrow>
     getProperty (fold (\<lambda>e b. applyExpense b e) es b) k = getProperty b k"
  by (induction es arbitrary: b) (simp_all add: applyExpense_unreferenced)

lemma getProperty_initBalances_aux:
  "getProperty (fold (\<lambda>m b. setProperty b (member_id m) (Num (Fin 0))) ms b) k =
     (if k \<in> member_id ` set ms \<and> k \<noteq> ''__proto__'' then Num (Fin 0) else getProperty b k)"
  by (induction ms arbitrary: b) (auto simp add: getProperty_setProperty)

lemma getProperty_initBalances:
  "getProperty (initBalances ms) k =
     (if k = ''__proto__'' then Proto
      else if k \<in> member_id ` set ms then Num (Fin 0)
      else if k \<in> set objectPrototypeNames then Fn else Undefined)"
proof -
  have a: "getProperty (initBalances ms) k =
      (if k \<in> member_id ` set ms \<and> k \<noteq> ''__proto__'' then Num (Fin 0) else getProperty [] k)"
    unfolding initBalances_def by (rule getProperty_initBalances_aux)
  have b: "getProperty [] k =
      (if k = ''__proto__'' then Proto
       else if k \<in> set objectPrototypeNames then Fn else Undefined)"
    by (simp add: getProperty_def)
  show ?thesis
    unfolding a b by simp
qed

lemma orZero_zero: "orZero (Num (Fin 0)) = Num (Fin 0)"
  by (simp add: orZero_def)

subsection \<open>Shape and order of the returned rows\<close>

text \<open>
  Claim C8 says that \<^verbatim>\<open>computeBalances\<close> returns one row per member, in the order of
  \<^verbatim>\<open>group.members\<close>, and that a member referenced by no expense has balance 0. The
  code breaks the last part for a member whose id is \<^verbatim>\<open>__proto__\<close>: the assignment
  \<^verbatim>\<open>balances[member.id] = 0\<close> stores nothing, and the row's balance is what
  \<^verbatim>\<open>balances['__proto__'] || 0\<close> reads, the object \<^verbatim>\<open>Object.prototype\<close>.
\<close>

theorem proto_member_row:
  "computeBalances protoGroup = [\<lparr>rowMember = protoMember, rowBalance = Proto\<rparr>]"
  by code_simp

text \<open>
  The rows are in the order of the members for every group, and the balance is 0 for every
  member with another id to whom no expense refers.
\<close>

lemma rows_in_member_order: "map rowMember (computeBalances g) = members g"
  by (simp add: computeBalances_def comp_def)

lemma unreferenced_member_zero:
  assumes i: "i < length (members g)"
    and p: "member_id (members g ! i) \<noteq> ''__proto__''"
    and u: "\<forall>e \<in> set (expenses g). member_id (members g ! i) \<notin> set (referencedIds e)"
  shows "rowBalance (computeBalances g ! i) = Num (Fin 0)"
proof -
  let ?k = "member_id (members g ! i)"
  have "getProperty (balancesObject g) ?k = getProperty (initBalances (members g)) ?k"
    unfolding balancesObject_def using u by (rule fold_applyExpense_unreferenced)
  also have "\<dots> = Num (Fin 0)"
    using i p by (simp add: getProperty_initBalances)
  finally show ?thesis
    using i by (simp add: computeBalances_def orZero_zero)
qed

subsection \<open>The equal split\<close>


text \<open>
  For every other id the rule holds. An expense that has a payer and no custom amounts
  credits the payer by the amount, and debits each id of the split set (\<^verbatim>\<open>splitBetween\<close>,
  or the payer alone when that is empty, taken without repetitions) by the quotient of the
  amount and the size of the split set; an id that is not yet a property of \<^verbatim>\<open>balances\<close>
  starts from 0 (\<^const>\<open>current\<close>). Sum, difference and quotient are those of doubles.
\<close>

lemma equal_split_effect:
  assumes p: "paidBy e \<noteq> []"
    and s: "splitAmounts e = None \<or> splitAmounts e = Some []"
    and d: "distinct (splitBetween e)"
    and k: "k \<noteq> ''__proto__''"
  shows "getProperty (applyExpense b e) k =
     (let S = (if splitBetween e \<noteq> [] then splitBetween e else [paidBy e]);
          x = ndivn (amount e) (length S);
          v = (if k = paidBy e then jsPlus (current b k) (amount e) else getProperty b k);
          w = (if k = paidBy e then jsPlus (current b k) (amount e) else current b k)
      in if k \<in> set S then jsMinus w x else v)"
proof -
  have nc: "\<not> hasCustomSplit e"
    using s by (auto simp add: hasCustomSplit_def)
  have S: "(if splitBetween e \<noteq> [] then splitBetween e else [paidBy e]) = splitMembers e"
    by (simp add: splitMembers_def)
  have x: "ndivn (amount e) (length (splitMembers e)) = share e"
    by (simp add: share_def splitCount_def splitMembers_def)
  have dS: "distinct (splitMembers e)"
    using d by (simp add: splitMembers_def)
  have a: "applyExpense b e =
      fold (\<lambda>memberId acc. debit memberId (share e) acc) (splitMembers e)
        (credit (paidBy e) (amount e) b)"
    using p s nc by (auto simp add: applyExpense_def Let_def)
  show ?thesis
    unfolding Let_def S x a
    using k by (simp add: getProperty_fold_share [OF dS] getProperty_credit current_credit)
qed

subsection \<open>The custom split\<close>

text \<open>
  Claim C4, as the specification states it, fails in its last part: the payer of an
  expense on the custom branch is credited whether or not \<^verbatim>\<open>splitAmounts\<close> lists them.
  In the scenario of the specification Bob, who pays the taxi and is not listed in its
  \<^verbatim>\<open>splitAmounts\<close>, goes from -30 to 0.
\<close>

theorem unlisted_payer_changes:
  "splitMode taxi = Some Custom \<and>
   splitAmounts taxi = Some [(''c'', Fin 30)] \<and>
   map_of [(''c'', Fin 30)] ''b'' = None \<and>
   afterDinner = [(''a'', Num (Fin 60)), (''b'', Num (Fin (- 30))), (''c'', Num (Fin (- 30)))] \<and>
   applyExpense afterDinner taxi =
     [(''a'', Num (Fin 60)), (''b'', Num (Fin 0)), (''c'', Num (Fin (- 60)))]"
  by code_simp

text \<open>
  Claim C4, amended. Let an expense have a payer and satisfy the data model
  (\<^verbatim>\<open>splitAmounts\<close> present only when \<^verbatim>\<open>splitMode\<close> is custom). The calculator
  takes the custom branch, one debit per entry of \<^verbatim>\<open>splitAmounts\<close> after the credit of
  the payer, exactly when \<^verbatim>\<open>splitMode\<close> is custom and \<^verbatim>\<open>splitAmounts\<close> is
  non-empty, and the equal branch otherwise. On the custom branch, for every id \<open>k\<close> that
  is not the name of a property inherited from \<^verbatim>\<open>Object.prototype\<close>: if
  \<^verbatim>\<open>splitAmounts\<close> lists \<open>k\<close>, the balance of \<open>k\<close> (0 when \<open>k\<close> was not tracked, and
  after the credit when \<open>k\<close> is the payer) is decreased by the mapped amount in one
  subtraction of doubles, the amount itself not being rounded or changed beforehand; if
  it does not, the balance of \<open>k\<close> is credited the expense's amount when \<open>k\<close> is the payer
  and is unchanged otherwise.
\<close>

theorem custom_split_rule:
  assumes inv: "splitAmounts e \<noteq> None \<longrightarrow> splitMode e = Some Custom"
    and p: "paidBy e \<noteq> []"
  shows
    "(\<forall>sa. splitMode e = Some Custom \<and> splitAmounts e = Some sa \<and> sa \<noteq> [] \<longrightarrow>
        applyExpense b e =
          fold (\<lambda>(memberId, amt) acc. debit memberId amt acc) sa
            (credit (paidBy e) (amount e) b)) \<and>
     (\<not> (splitMode e = Some Custom \<and> (\<exists>sa. splitAmounts e = Some sa \<and> sa \<noteq> [])) \<longrightarrow>
        applyExpense b e =
          fold (\<lambda>memberId acc. debit memberId (share e) acc) (splitMembers e)
            (credit (paidBy e) (amount e) b)) \<and>
     (\<forall>sa. splitMode e = Some Custom \<and> splitAmounts e = Some sa \<and> sa \<noteq> [] \<and>
           distinct (map fst sa) \<and> plainKey k \<longrightarrow>
        getProperty (applyExpense b e) k =
          (case map_of sa k of
             None \<Rightarrow>
               if k = paidBy e then jsPlus (balanceOrZero b k) (amount e) else getProperty b k
           | Some amt \<Rightarrow>
               jsMinus
                 (if k = paidBy e then jsPlus (balanceOrZero b k) (amount e)
                  else balanceOrZero b k)
                 amt))"
proof -
  have 1: "applyExpense b e =
      fold (\<lambda>(memberId, amt) acc. debit memberId amt acc) sa (credit (paidBy e) (amount e) b)"
    if "splitMode e = Some Custom" "splitAmounts e = Some sa" "sa \<noteq> []" for sa
    using that p by (simp add: applyExpense_def Let_def hasCustomSplit_def)
  have 2: "applyExpense b e =
      fold (\<lambda>memberId acc. debit memberId (share e) acc) (splitMembers e)
        (credit (paidBy e) (amount e) b)"
    if n: "\<not> (splitMode e = Some Custom \<and> (\<exists>sa. splitAmounts e = Some sa \<and> sa \<noteq> []))"
  proof -
    have "\<not> hasCustomSplit e"
      using n inv by (auto simp add: hasCustomSplit_def split: option.splits)
    then show ?thesis
      using p by (simp add: applyExpense_def Let_def split: option.splits)
  qed
  have 3: "getProperty (applyExpense b e) k =
      (case map_of sa k of
         None \<Rightarrow>
           if k = paidBy e then jsPlus (balanceOrZero b k) (amount e) else getProperty b k
       | Some amt \<Rightarrow>
           jsMinus
             (if k = paidBy e then jsPlus (balanceOrZero b k) (amount e)
              else balanceOrZero b k)
             amt)"
    if c: "splitMode e = Some Custom" "splitAmounts e = Some sa" "sa \<noteq> []"
      and d: "distinct (map fst sa)" and k: "plainKey k" for sa
  proof -
    have np: "k \<noteq> ''__proto__''"
      using k by (rule plainKey_not_proto)
    have g: "getProperty (applyExpense b e) k =
        (case map_of sa k of
           None \<Rightarrow> getProperty (credit (paidBy e) (amount e) b) k
         | Some amt \<Rightarrow> jsMinus (current (credit (paidBy e) (amount e) b) k) amt)"
      unfolding 1 [OF c] by (rule getProperty_fold_custom [OF d np])
    show ?thesis
    proof (cases "k = paidBy e")
      case True
      have q: "current b (paidBy e) = balanceOrZero b (paidBy e)"
        using current_plain [OF k] True by simp
      show ?thesis
        unfolding g using True np
        by (simp add: getProperty_credit current_credit q split: option.splits)
    next
      case False
      show ?thesis
        unfolding g using False
        by (simp add: getProperty_credit current_credit current_plain [OF k, where b = b]
            split: option.splits)
    qed
  qed
  from 1 2 3 show ?thesis
    by blast
qed

theorem custom_split_rule_witness:
  "paidBy taxi \<noteq> [] \<and> splitMode taxi = Some Custom \<and>
   splitAmounts taxi = Some [(''c'', Fin 30)] \<and> plainKey ''c'' \<and> plainKey ''b'' \<and> plainKey ''a'' \<and>
   getProperty (applyExpense afterDinner taxi) ''c'' = Num (Fin (- 60)) \<and>
   getProperty (applyExpense afterDinner taxi) ''b'' = Num (Fin 0) \<and>
   getProperty (applyExpense afterDinner taxi) ''a'' = Num (Fin 60) \<and>
   paidBy dinner \<noteq> [] \<and> splitAmounts dinner = None \<and>
   applyExpense (initBalances [alice, bob, carol]) dinner =
     [(''a'', Num (Fin 60)), (''b'', Num (Fin (- 30))), (''c'', Num (Fin (- 30)))]"
proof -
  have inv: "splitAmounts taxi \<noteq> None \<longrightarrow> splitMode taxi = Some Custom"
    by (simp add: taxi_def)
  have p: "paidBy taxi \<noteq> []"
    by (simp add: taxi_def)
  have c: "splitMode taxi = Some Custom" "splitAmounts taxi = Some [(''c'', Fin 30)]"
    "[(''c'', Fin 30)] \<noteq> []" "distinct (map fst [(''c'', Fin 30 :: number)])"
    by (simp_all add: taxi_def)
  have k: "plainKey ''c''" "plainKey ''b''" "plainKey ''a''"
    by (simp_all add: plainKey_def objectPrototypeNames_def)
  note r = custom_split_rule [OF inv p, where b = afterDinner, THEN conjunct2, THEN conjunct2,
      rule_format, of "[(''c'', Fin 30)]"]
  have "getProperty (applyExpense afterDinner taxi) ''c'' =
      (case map_of [(''c'', Fin 30)] ''c'' of
         None \<Rightarrow>
           if ''c'' = paidBy taxi then jsPlus (balanceOrZero afterDinner ''c'') (amount taxi)
           else getProperty afterDinner ''c''
       | Some amt \<Rightarrow>
           jsMinus
             (if ''c'' = paidBy taxi then jsPlus (balanceOrZero afterDinner ''c'') (amount taxi)
              else balanceOrZero afterDinner ''c'')
             amt)"
    by (rule r) (simp add: c k)
  also have "\<dots> = Num (Fin (- 60))"
    by code_simp
  finally have 1: "getProperty (applyExpense afterDinner taxi) ''c'' = Num (Fin (- 60))" .
  have "getProperty (applyExpense afterDinner taxi) ''b'' =
      (case map_of [(''c'', Fin 30)] ''b'' of
         None \<Rightarrow>
           if ''b'' = paidBy taxi then jsPlus (balanceOrZero afterDinner ''b'') (amount taxi)
           else getProperty afterDinner ''b''
       | Some amt \<Rightarrow>
           jsMinus
             (if ''b'' = paidBy taxi then jsPlus (balanceOrZero afterDinner ''b'') (amount taxi)
              else balanceOrZero afterDinner ''b'')
             amt)"
    by (rule r) (simp add: c k)
  also have "\<dots> = Num (Fin 0)"
    by code_simp
  finally have 2: "getProperty (applyExpense afterDinner taxi) ''b'' = Num (Fin 0)" .
  have "getProperty (applyExpense afterDinner taxi) ''a'' =
      (case map_of [(''c'', Fin 30)] ''a'' of
         None \<Rightarrow>
           if ''a'' = paidBy taxi then jsPlus (balanceOrZero afterDinner ''a'') (amount taxi)
           else getProperty afterDinner ''a''
       | Some amt \<Rightarrow>
           jsMinus
             (if ''a'' = paidBy taxi then jsPlus (balanceOrZero afterDinner ''a'') (amount taxi)
              else balanceOrZero afterDinner ''a'')
             amt)"
    by (rule r) (simp add: c k)
  also have "\<dots> = Num (Fin 60)"
    by code_simp
  finally have 3: "getProperty (applyExpense afterDinner taxi) ''a'' = Num (Fin 60)" .
  have dinv: "splitAmounts dinner \<noteq> None \<longrightarrow> splitMode dinner = Some Custom"
    by (simp add: dinner_def)
  have dp: "paidBy dinner \<noteq> []"
    by (simp add: dinner_def)
  have dn: "splitAmounts dinner = None"
    by (simp add: dinner_def)
  have de: "\<not> (splitMode dinner = Some Custom \<and>
      (\<exists>sa. splitAmounts dinner = Some sa \<and> sa \<noteq> []))"
    by (simp add: dinner_def)
  have "applyExpense (initBalances [alice, bob, carol]) dinner =
      fold (\<lambda>memberId acc. debit memberId (share dinner) acc) (splitMembers dinner)
        (credit (paidBy dinner) (amount dinner) (initBalances [alice, bob, carol]))"
    using custom_split_rule [OF dinv dp, where b = "initBalances [alice, bob, carol]",
        THEN conjunct2, THEN conjunct1] de by blast
  also have "\<dots> =
      [(''a'', Num (Fin 60)), (''b'', Num (Fin (- 30))), (''c'', Num (Fin (- 30)))]"
    by code_simp
  finally have 4: "applyExpense (initBalances [alice, bob, carol]) dinner =
      [(''a'', Num (Fin 60)), (''b'', Num (Fin (- 30))), (''c'', Num (Fin (- 30)))]" .
  show ?thesis
    using p c k 1 2 3 dp dn 4 by simp
qed

section \<open>Properties of the settlement planner\<close>

subsection \<open>One iteration of the loop\<close>

declare settleLoop.simps [simp del]
declare iterations.simps [simp del]

lemma roundToCents_zero: "roundToCents 0 = 0"
proof -
  have "\<lfloor>(1 :: rat) / 2\<rfloor> = 0"
    by (rule floor_unique) simp_all
  then show ?thesis
    by (simp add: roundToCents_def)
qed

lemma debtors_loopBody:
  "debtors (loopBody s) =
     (debtors s)[debtorIndex s := (debtors s ! debtorIndex s)
        \<lparr>entry_amount := roundToCents (entry_amount (debtors s ! debtorIndex s) - payment s)\<rparr>]"
  by (simp add: loopBody_def Let_def payment_def)

lemma creditors_loopBody:
  "creditors (loopBody s) =
     (creditors s)[creditorIndex s := (creditors s ! creditorIndex s)
        \<lparr>entry_amount := roundToCents (entry_amount (creditors s ! creditorIndex s) - payment s)\<rparr>]"
  by (simp add: loopBody_def Let_def payment_def)

lemma settlements_loopBody:
  "settlements (loopBody s) =
     (if payment s > 0
      then settlements s @
        [\<lparr>from_member = entry_member (debtors s ! debtorIndex s),
          to_member = entry_member (creditors s ! creditorIndex s),
          settle_amount = payment s\<rparr>]
      else settlements s)"
  by (simp add: loopBody_def Let_def payment_def)

lemma debtorIndex_loopBody:
  "debtorIndex (loopBody s) =
     (if roundToCents (entry_amount (debtors s ! debtorIndex s) - payment s) \<le> 1 / 100
      then debtorIndex s + 1 else debtorIndex s)"
  by (simp add: loopBody_def Let_def payment_def)

lemma creditorIndex_loopBody:
  "creditorIndex (loopBody s) =
     (if roundToCents (entry_amount (creditors s ! creditorIndex s) - payment s) \<le> 1 / 100
      then creditorIndex s + 1 else creditorIndex s)"
  by (simp add: loopBody_def Let_def payment_def)

lemma payment_exhausts:
  "entry_amount (debtors s ! debtorIndex s) - payment s = 0 \<or>
   entry_amount (creditors s ! creditorIndex s) - payment s = 0"
  by (simp add: payment_def min_def)

lemma loopBody_advances:
  "debtorIndex s + creditorIndex s < debtorIndex (loopBody s) + creditorIndex (loopBody s)"
  using payment_exhausts [of s]
  by (auto simp add: debtorIndex_loopBody creditorIndex_loopBody roundToCents_zero)

lemma loopBody_cursor_steps:
  "debtorIndex s \<le> debtorIndex (loopBody s) \<and> debtorIndex (loopBody s) \<le> debtorIndex s + 1 \<and>
   creditorIndex s \<le> creditorIndex (loopBody s) \<and>
   creditorIndex (loopBody s) \<le> creditorIndex s + 1"
  by (simp add: debtorIndex_loopBody creditorIndex_loopBody)

lemma length_debtors_loopBody: "length (debtors (loopBody s)) = length (debtors s)"
  by (simp add: debtors_loopBody)

lemma length_creditors_loopBody: "length (creditors (loopBody s)) = length (creditors s)"
  by (simp add: creditors_loopBody)

lemma remaining_loopBody: "loopCond s \<Longrightarrow> remaining (loopBody s) < remaining s"
  using loopBody_advances [of s] loopBody_cursor_steps [of s]
  unfolding remaining_def loopCond_def length_debtors_loopBody length_creditors_loopBody
  by linarith

lemma remaining_loopCond: "loopCond s \<Longrightarrow> 2 \<le> remaining s"
  unfolding remaining_def loopCond_def by linarith

lemma iterations_bound: "loopCond s \<Longrightarrow> iterations s + 1 \<le> remaining s"
proof (induction s rule: iterations.induct)
  case (1 s)
  show ?case
  proof (cases "loopCond (loopBody s)")
    case True
    then have "iterations (loopBody s) + 1 \<le> remaining (loopBody s)"
      using "1.IH" "1.prems" by simp
    then show ?thesis
      using remaining_loopBody [OF "1.prems"] "1.prems"
      by (simp add: iterations.simps [of s])
  next
    case False
    then have "iterations (loopBody s) = 0"
      by (simp add: iterations.simps [of "loopBody s"])
    then show ?thesis
      using remaining_loopCond [OF "1.prems"] "1.prems"
      by (simp add: iterations.simps [of s])
  qed
qed

lemma settleLoop_iterate: "settleLoop s = (loopBody ^^ iterations s) s"
proof (induction s rule: settleLoop.induct)
  case (1 s)
  show ?case
  proof (cases "loopCond s")
    case True
    then show ?thesis
      using "1.IH" by (simp add: settleLoop.simps [of s] iterations.simps [of s] funpow_swap1)
  next
    case False
    then show ?thesis
      by (simp add: settleLoop.simps [of s] iterations.simps [of s])
  qed
qed

lemma loopCond_before_end: "n < iterations s \<Longrightarrow> loopCond ((loopBody ^^ n) s)"
proof (induction n arbitrary: s)
  case 0
  then show ?case
    by (cases "loopCond s") (simp_all add: iterations.simps [of s])
next
  case (Suc n)
  have c: "loopCond s"
    using Suc.prems by (cases "loopCond s") (simp_all add: iterations.simps [of s])
  then have "n < iterations (loopBody s)"
    using Suc.prems by (simp add: iterations.simps [of s])
  then have "loopCond ((loopBody ^^ n) (loopBody s))"
    by (rule Suc.IH)
  then show ?case
    by (simp add: funpow_swap1)
qed

lemma settleLoop_invariant:
  assumes "P s" and "\<And>t. P t \<Longrightarrow> loopCond t \<Longrightarrow> P (loopBody t)"
  shows "P (settleLoop s)"
  using assms(1)
proof (induction s rule: settleLoop.induct)
  case (1 s)
  show ?case
  proof (cases "loopCond s")
    case True
    then show ?thesis
      using "1.IH" "1.prems" assms(2) by (simp add: settleLoop.simps [of s])
  next
    case False
    then show ?thesis
      using "1.prems" by (simp add: settleLoop.simps [of s])
  qed
qed

lemma settleLoop_ends: "\<not> loopCond (settleLoop s)"
proof (induction s rule: settleLoop.induct)
  case (1 s)
  show ?case
    using "1.IH" by (cases "loopCond s") (simp_all add: settleLoop.simps [of s])
qed

lemma length_settlements_loop:
  "length (settlements (settleLoop s)) \<le> length (settlements s) + iterations s"
proof (induction s rule: settleLoop.induct)
  case (1 s)
  show ?case
  proof (cases "loopCond s")
    case True
    have "length (settlements (loopBody s)) \<le> length (settlements s) + 1"
      by (simp add: settlements_loopBody)
    then show ?thesis
      using "1.IH" True by (simp add: settleLoop.simps [of s] iterations.simps [of s])
  next
    case False
    then show ?thesis
      by (simp add: settleLoop.simps [of s])
  qed
qed

lemma length_creditorsOf:
  "length (creditorsOf rows) = length (filter (\<lambda>row. balance row > 0) rows)"
  by (simp add: creditorsOf_def)

lemma length_debtorsOf:
  "length (debtorsOf rows) = length (filter (\<lambda>row. balance row < 0) rows)"
  by (simp add: debtorsOf_def)

lemma remaining_initState:
  "remaining (initState rows) =
     length (filter (\<lambda>row. balance row < 0) rows) + length (filter (\<lambda>row. balance row > 0) rows)"
  by (simp add: remaining_def initState_def length_creditorsOf length_debtorsOf)

lemma iterations_initState:
  "int (iterations (initState rows)) \<le>
     max 0 (int (length (filter (\<lambda>row. balance row > 0) rows)) +
            int (length (filter (\<lambda>row. balance row < 0) rows)) - 1)"
proof (cases "loopCond (initState rows)")
  case True
  from iterations_bound [OF this] show ?thesis
    by (simp add: remaining_initState)
next
  case False
  then show ?thesis
    by (simp add: iterations.simps [of "initState rows"])
qed

subsection \<open>The parties of a settlement\<close>

lemma shape_preserved:
  "length (debtors (settleLoop s)) = length (debtors s) \<and>
   length (creditors (settleLoop s)) = length (creditors s) \<and>
   (debtorIndex s \<le> length (debtors s) \<and> creditorIndex s \<le> length (creditors s) \<longrightarrow>
    debtorIndex (settleLoop s) \<le> length (debtors s) \<and>
    creditorIndex (settleLoop s) \<le> length (creditors s))"
proof (rule settleLoop_invariant
    [where P = "\<lambda>t. length (debtors t) = length (debtors s) \<and>
       length (creditors t) = length (creditors s) \<and>
       (debtorIndex s \<le> length (debtors s) \<and> creditorIndex s \<le> length (creditors s) \<longrightarrow>
        debtorIndex t \<le> length (debtors s) \<and> creditorIndex t \<le> length (creditors s))"])
  show "length (debtors s) = length (debtors s) \<and> length (creditors s) = length (creditors s) \<and>
      (debtorIndex s \<le> length (debtors s) \<and> creditorIndex s \<le> length (creditors s) \<longrightarrow>
       debtorIndex s \<le> length (debtors s) \<and> creditorIndex s \<le> length (creditors s))"
    by simp
next
  fix t
  assume p: "length (debtors t) = length (debtors s) \<and>
       length (creditors t) = length (creditors s) \<and>
       (debtorIndex s \<le> length (debtors s) \<and> creditorIndex s \<le> length (creditors s) \<longrightarrow>
        debtorIndex t \<le> length (debtors s) \<and> creditorIndex t \<le> length (creditors s))"
    and c: "loopCond t"
  show "length (debtors (loopBody t)) = length (debtors s) \<and>
       length (creditors (loopBody t)) = length (creditors s) \<and>
       (debtorIndex s \<le> length (debtors s) \<and> creditorIndex s \<le> length (creditors s) \<longrightarrow>
        debtorIndex (loopBody t) \<le> length (debtors s) \<and>
        creditorIndex (loopBody t) \<le> length (creditors s))"
    using p c loopBody_cursor_steps [of t]
    unfolding loopCond_def length_debtors_loopBody length_creditors_loopBody
    by linarith
qed

lemma loop_exhausts_a_list:
  assumes "debtorIndex s \<le> length (debtors s)" and "creditorIndex s \<le> length (creditors s)"
  shows "debtorIndex (settleLoop s) = length (debtors s) \<or>
         creditorIndex (settleLoop s) = length (creditors s)"
  using settleLoop_ends [of s] shape_preserved [of s] assms
  unfolding loopCond_def by linarith

lemma members_update:
  "map entry_member (xs[i := (xs ! i)\<lparr>entry_amount := a\<rparr>]) = map entry_member xs"
proof (cases "i < length xs")
  case True
  then show ?thesis
    by (simp add: map_update list_update_same_conv)
next
  case False
  then show ?thesis
    by (simp add: list_update_beyond)
qed

lemma members_loopBody:
  "map entry_member (debtors (loopBody t)) = map entry_member (debtors t) \<and>
   map entry_member (creditors (loopBody t)) = map entry_member (creditors t)"
  by (simp add: debtors_loopBody creditors_loopBody members_update)

lemma wellFormed_loopBody:
  assumes w: "wellFormed s t" and c: "loopCond t"
  shows "wellFormed s (loopBody t)"
proof -
  from c have i: "debtorIndex t < length (debtors t)" "creditorIndex t < length (creditors t)"
    by (simp_all add: loopCond_def)
  have "entry_member (debtors t ! debtorIndex t) \<in> entry_member ` set (debtors t)"
    using i(1) by simp
  also have "entry_member ` set (debtors t) = entry_member ` set (debtors s)"
    using w by (metis wellFormed_def list.set_map)
  finally have d: "entry_member (debtors t ! debtorIndex t) \<in> entry_member ` set (debtors s)" .
  have "entry_member (creditors t ! creditorIndex t) \<in> entry_member ` set (creditors t)"
    using i(2) by simp
  also have "entry_member ` set (creditors t) = entry_member ` set (creditors s)"
    using w by (metis wellFormed_def list.set_map)
  finally have e: "entry_member (creditors t ! creditorIndex t) \<in> entry_member ` set (creditors s)" .
  show ?thesis
    using w d e unfolding wellFormed_def
    by (simp add: members_loopBody settlements_loopBody)
qed

lemma wellFormed_settleLoop: "wellFormed s s \<Longrightarrow> wellFormed s (settleLoop s)"
  by (rule settleLoop_invariant [where P = "wellFormed s"]) (simp_all add: wellFormed_loopBody)

lemma wellFormed_initState: "wellFormed (initState rows) (initState rows)"
  by (simp add: wellFormed_def initState_def)

lemma members_debtorsOf:
  "entry_member ` set (debtorsOf rows) = member ` {row \<in> set rows. balance row < 0}"
  by (auto simp add: debtorsOf_def image_iff)

lemma members_creditorsOf:
  "entry_member ` set (creditorsOf rows) = member ` {row \<in> set rows. balance row > 0}"
  by (auto simp add: creditorsOf_def image_iff)

lemma settlement_parties:
  assumes "x \<in> set (computeSettlements rows)"
  shows "0 < settle_amount x \<and>
         (\<exists>row \<in> set rows. balance row < 0 \<and> member row = from_member x) \<and>
         (\<exists>row \<in> set rows. balance row > 0 \<and> member row = to_member x)"
proof -
  have "wellFormed (initState rows) (settleLoop (initState rows))"
    by (rule wellFormed_settleLoop) (rule wellFormed_initState)
  then have "0 < settle_amount x \<and> from_member x \<in> entry_member ` set (debtorsOf rows) \<and>
      to_member x \<in> entry_member ` set (creditorsOf rows)"
    using assms by (simp add: wellFormed_def computeSettlements_def initState_def)
  then show ?thesis
    unfolding members_debtorsOf members_creditorsOf by auto
qed

lemma roundToCents_small: "0 \<le> v \<Longrightarrow> v < 1 / 200 \<Longrightarrow> roundToCents v = 0"
proof -
  assume "0 \<le> v" "v < 1 / 200"
  then have "\<lfloor>v * 100 + 1 / 2\<rfloor> = 0"
    by (intro floor_unique) simp_all
  then show ?thesis
    by (simp add: roundToCents_def)
qed

lemma allZero_loopBody:
  assumes z: "allZero t" and c: "loopCond t"
  shows "allZero (loopBody t)"
proof -
  from c have i: "debtorIndex t < length (debtors t)" "creditorIndex t < length (creditors t)"
    by (simp_all add: loopCond_def)
  have d: "entry_amount (debtors t ! debtorIndex t) = 0"
    using z i(1) by (simp add: allZero_def)
  have e: "entry_amount (creditors t ! creditorIndex t) = 0"
    using z i(2) by (simp add: allZero_def)
  have p: "payment t = 0"
    by (simp add: payment_def d e)
  have 1: "\<forall>e \<in> set (debtors (loopBody t)). entry_amount e = 0"
  proof
    fix a assume "a \<in> set (debtors (loopBody t))"
    then have "a \<in> insert ((debtors t ! debtorIndex t)\<lparr>entry_amount := 0\<rparr>) (set (debtors t))"
      using set_update_subset_insert [of "debtors t" "debtorIndex t"]
      by (auto simp add: debtors_loopBody p d roundToCents_zero)
    then show "entry_amount a = 0"
      using z by (auto simp add: allZero_def)
  qed
  have 2: "\<forall>e \<in> set (creditors (loopBody t)). entry_amount e = 0"
  proof
    fix a assume "a \<in> set (creditors (loopBody t))"
    then have "a \<in> insert ((creditors t ! creditorIndex t)\<lparr>entry_amount := 0\<rparr>) (set (creditors t))"
      using set_update_subset_insert [of "creditors t" "creditorIndex t"]
      by (auto simp add: creditors_loopBody p e roundToCents_zero)
    then show "entry_amount a = 0"
      using z by (auto simp add: allZero_def)
  qed
  have 3: "settlements (loopBody t) = []"
    using z by (simp add: settlements_loopBody p allZero_def)
  from 1 2 3 show ?thesis
    by (simp add: allZero_def)
qed

lemma allZero_initState:
  assumes "\<forall>row \<in> set rows. \<bar>balance row\<bar> < 1 / 200"
  shows "allZero (initState rows)"
proof -
  have "roundToCents (- balance row) = 0" if "row \<in> set rows" "balance row < 0" for row
    using assms that by (intro roundToCents_small) auto
  moreover have "roundToCents (balance row) = 0" if "row \<in> set rows" "balance row > 0" for row
    using assms that by (intro roundToCents_small) auto
  ultimately show ?thesis
    by (auto simp add: allZero_def initState_def debtorsOf_def creditorsOf_def)
qed

subsection \<open>The number of settlements\<close>

text \<open>
  Claim C7, as the specification states it, fails for a list without creditor and without
  debtor (the empty list, or rows whose balances are all 0): the planner returns no
  settlement, and 0 is not at most 0 + 0 - 1.
\<close>

theorem no_party_count:
  "\<not> int (length (computeSettlements [])) \<le>
       int (length (filter (\<lambda>row. balance row > 0) [])) +
       int (length (filter (\<lambda>row. balance row < 0) [])) - 1"
  by code_simp

text \<open>
  Claim C7, amended. For every list of balance rows, the number of settlements returned by
  \<^verbatim>\<open>computeSettlements\<close> is at most creditors + debtors - 1 when there is a creditor or a
  debtor, and 0 otherwise: at most the greater of 0 and creditors + debtors - 1.
\<close>

theorem settlement_count:
  "int (length (computeSettlements balanceRows)) \<le>
     max 0 (int (length (filter (\<lambda>row. balance row > 0) balanceRows)) +
            int (length (filter (\<lambda>row. balance row < 0) balanceRows)) - 1)"
proof -
  have "length (computeSettlements balanceRows) \<le> iterations (initState balanceRows)"
    using length_settlements_loop [of "initState balanceRows"]
    by (simp add: computeSettlements_def initState_def)
  then show ?thesis
    using iterations_initState [of balanceRows] by linarith
qed

theorem settlement_count_witness:
  "length (computeSettlements owedRows) = 2 \<and>
   int (length (filter (\<lambda>row. balance row > 0) owedRows)) +
   int (length (filter (\<lambda>row. balance row < 0) owedRows)) - 1 = 2 \<and>
   int (length (computeSettlements owedRows)) \<le>
     max 0 (int (length (filter (\<lambda>row. balance row > 0) owedRows)) +
            int (length (filter (\<lambda>row. balance row < 0) owedRows)) - 1)"
proof -
  have n: "length (computeSettlements owedRows) = 2"
    by code_simp
  have c: "int (length (filter (\<lambda>row. balance row > 0) owedRows)) +
      int (length (filter (\<lambda>row. balance row < 0) owedRows)) - 1 = 2"
    by (simp add: owedRows_def)
  show ?thesis
    using n c settlement_count [of owedRows] by blast
qed

subsection \<open>No settlement from a member to themself\<close>

text \<open>
  Claim C10. For every list of balance rows in which each member occurs in at most one
  row, the from-member of every settlement returned by \<^verbatim>\<open>computeSettlements\<close> differs
  from its to-member. The theorem holds for every way \<open>f\<close> of telling members apart:
  with \<open>f\<close> the identity the members are compared as records, with \<^const>\<open>member_id\<close>
  by their ids.
\<close>

theorem no_self_settlement:
  assumes "distinct (map (\<lambda>row. f (member row)) balanceRows)"
    and "x \<in> set (computeSettlements balanceRows)"
  shows "f (from_member x) \<noteq> f (to_member x)"
proof
  assume eq: "f (from_member x) = f (to_member x)"
  from settlement_parties [OF assms(2)] obtain r1 r2 where
    r1: "r1 \<in> set balanceRows" "balance r1 < 0" "member r1 = from_member x" and
    r2: "r2 \<in> set balanceRows" "balance r2 > 0" "member r2 = to_member x"
    by blast
  have "inj_on (\<lambda>row. f (member row)) (set balanceRows)"
    using assms(1) by (simp add: distinct_map)
  moreover have "f (member r1) = f (member r2)"
    using r1(3) r2(3) eq by simp
  ultimately have "r1 = r2"
    using r1(1) r2(1) by (auto dest: inj_onD)
  then show False
    using r1(2) r2(2) by simp
qed

theorem no_self_settlement_witness:
  "distinct (map (\<lambda>row. member_id (member row)) owedRows) \<and>
   \<lparr>from_member = alice, to_member = carol, settle_amount = 10\<rparr>
     \<in> set (computeSettlements owedRows) \<and>
   member_id (from_member \<lparr>from_member = alice, to_member = carol, settle_amount = 10\<rparr>) \<noteq>
   member_id (to_member \<lparr>from_member = alice, to_member = carol, settle_amount = 10\<rparr>)"
proof -
  have d: "distinct (map (\<lambda>row. member_id (member row)) owedRows)"
    by (simp add: owedRows_def alice_def bob_def carol_def)
  have "computeSettlements owedRows =
      [\<lparr>from_member = alice, to_member = carol, settle_amount = 10\<rparr>,
       \<lparr>from_member = bob, to_member = carol, settle_amount = 5\<rparr>]"
    by code_simp
  then have x: "\<lparr>from_member = alice, to_member = carol, settle_amount = 10\<rparr>
      \<in> set (computeSettlements owedRows)"
    by simp
  show ?thesis
    using d x no_self_settlement [OF d x] by blast
qed

subsection \<open>What the planner returns\<close>

text \<open>
  Claim C6, as the specification states it, fails in its last part: balances of 0.006 and
  -0.006 are within 0.01 of 0, but each rounds to one cent, and the planner returns a
  settlement of 0.01.
\<close>

theorem half_cent_settlement:
  "list_all (\<lambda>row. \<bar>balance row\<bar> < 1 / 100) halfCentRows \<and>
   computeSettlements halfCentRows =
     [\<lparr>from_member = bob, to_member = alice, settle_amount = 1 / 100\<rparr>]"
  by code_simp

text \<open>
  Claim C6, amended. Every settlement returned by \<^verbatim>\<open>computeSettlements\<close> has a positive
  amount; its from-member is the member of a row with balance below 0 and its to-member
  the member of a row with balance above 0, so that, in a list in which each member occurs
  in at most one row, the member of a row with balance exactly 0 appears in no settlement
  in either role; and for every list in which every balance is less than 0.005 away from
  0 (every amount rounds to 0 cents), \<^verbatim>\<open>computeSettlements\<close> returns the empty list.
\<close>

theorem settlement_contract:
  "(\<forall>x \<in> set (computeSettlements balanceRows).
      0 < settle_amount x \<and>
      (\<exists>row \<in> set balanceRows. balance row < 0 \<and> member row = from_member x) \<and>
      (\<exists>row \<in> set balanceRows. balance row > 0 \<and> member row = to_member x)) \<and>
   (\<forall>row \<in> set balanceRows. distinct (map member balanceRows) \<and> balance row = 0 \<longrightarrow>
      member row \<notin> from_member ` set (computeSettlements balanceRows) \<and>
      member row \<notin> to_member ` set (computeSettlements balanceRows)) \<and>
   ((\<forall>row \<in> set balanceRows. \<bar>balance row\<bar> < 1 / 200) \<longrightarrow>
      computeSettlements balanceRows = [])"
proof -
  have a: "\<forall>x \<in> set (computeSettlements balanceRows).
      0 < settle_amount x \<and>
      (\<exists>row \<in> set balanceRows. balance row < 0 \<and> member row = from_member x) \<and>
      (\<exists>row \<in> set balanceRows. balance row > 0 \<and> member row = to_member x)"
    using settlement_parties by blast
  have b: "member row \<notin> from_member ` set (computeSettlements balanceRows) \<and>
      member row \<notin> to_member ` set (computeSettlements balanceRows)"
    if r: "row \<in> set balanceRows" and d: "distinct (map member balanceRows)"
      and z: "balance row = 0" for row
  proof -
    have inj: "inj_on member (set balanceRows)"
      using d by (simp add: distinct_map)
    have "member row \<noteq> from_member x \<and> member row \<noteq> to_member x"
      if x: "x \<in> set (computeSettlements balanceRows)" for x
    proof -
      from a x obtain r1 r2 where
        r1: "r1 \<in> set balanceRows" "balance r1 < 0" "member r1 = from_member x" and
        r2: "r2 \<in> set balanceRows" "balance r2 > 0" "member r2 = to_member x"
        by blast
      have "row \<noteq> r1" "row \<noteq> r2"
        using z r1(2) r2(2) by auto
      then show ?thesis
        using inj r r1(1,3) r2(1,3) by (metis inj_onD)
    qed
    then show ?thesis by blast
  qed
  have c: "computeSettlements balanceRows = []"
    if "\<forall>row \<in> set balanceRows. \<bar>balance row\<bar> < 1 / 200"
  proof -
    have "allZero (initState balanceRows)"
      using that by (rule allZero_initState)
    then have "allZero (settleLoop (initState balanceRows))"
      by (rule settleLoop_invariant [where P = allZero]) (rule allZero_loopBody)
    then show ?thesis
      by (simp add: allZero_def computeSettlements_def)
  qed
  from a b c show ?thesis by blast
qed

theorem settlement_contract_witness:
  "list_all (\<lambda>row. \<bar>balance row\<bar> < 1 / 200) tinyRows \<and>
   computeSettlements tinyRows = [] \<and>
   distinct (map member owedRows) \<and>
   \<lparr>from_member = bob, to_member = carol, settle_amount = 5\<rparr>
     \<in> set (computeSettlements owedRows) \<and>
   (0 :: rat) < settle_amount \<lparr>from_member = bob, to_member = carol, settle_amount = 5\<rparr>"
proof -
  have t: "\<forall>row \<in> set tinyRows. \<bar>balance row\<bar> < 1 / 200"
    by (simp add: tinyRows_def)
  have e: "computeSettlements tinyRows = []"
    using settlement_contract [of tinyRows] t by blast
  have d: "distinct (map member owedRows)"
    by (simp add: owedRows_def alice_def bob_def carol_def)
  have "computeSettlements owedRows =
      [\<lparr>from_member = alice, to_member = carol, settle_amount = 10\<rparr>,
       \<lparr>from_member = bob, to_member = carol, settle_amount = 5\<rparr>]"
    by code_simp
  then have x: "\<lparr>from_member = bob, to_member = carol, settle_amount = 5\<rparr>
      \<in> set (computeSettlements owedRows)"
    by simp
  have p: "(0 :: rat) < settle_amount \<lparr>from_member = bob, to_member = carol, settle_amount = 5\<rparr>"
    using settlement_contract [of owedRows] x by blast
  show ?thesis
    unfolding list_all_iff using t e d x p by blast
qed

end
